theory Spec2Isabelle
  imports Complex_Main "HOL-Library.Word"
begin

unbundle bit_operations_syntax

section \<open>Data model\<close>

text \<open>
  The development embeds \<^verbatim>\<open>src/src/screen.cpp\<close> (class \<^verbatim>\<open>Screen\<close>, declared in
  \<^verbatim>\<open>src/include/nanogui/screen.h\<close>). Widgets are heap objects reached through pointers; a
  pointer is modelled by a widget identifier and \<^verbatim>\<open>nullptr\<close> by \<open>None\<close>.
  \<^verbatim>\<open>Vector2i\<close> is a pair of integers.
\<close>

type_synonym wid = nat
type_synonym vec2 = "int \<times> int"

text \<open>\<^verbatim>\<open>enum class Cursor\<close> of \<^verbatim>\<open>common.h\<close>.\<close>

datatype Cursor = Arrow | IBeam | Crosshair | Hand | HResize | VResize | CursorCount

text \<open>
  The dynamic type of a widget, as far as \<^verbatim>\<open>dynamic_cast<Window *>\<close> and
  \<^verbatim>\<open>dynamic_cast<Popup *>\<close> observe it. A \<^verbatim>\<open>Popup\<close> is passed to
  \<^verbatim>\<open>moveWindowToFront(Window *)\<close> in line 381, so it is a \<^verbatim>\<open>Window\<close> as well. The
  argument of \<open>PopupWidget\<close> is the popup's \<^verbatim>\<open>parentWindow()\<close>.
\<close>

datatype kind = PlainWidget | WindowWidget | PopupWidget "wid option"

text \<open>
  Calls that leave \<^verbatim>\<open>screen.cpp\<close>: the virtual event handlers of the widgets and the
  backend's \<^verbatim>\<open>ngSetCursor\<close>. Each call is recorded, with its receiver and arguments, in the
  order in which the code makes it.
\<close>

datatype event =
    FocusEvent wid bool
  | KeyboardEvent wid int int int int
  | KeyboardCharacterEvent wid "32 word"
  | MouseButtonEvent wid vec2 nat bool int
  | MouseDragEvent wid vec2 vec2 "32 word" int
  | MouseMotionEvent wid vec2 vec2 "32 word" int
  | ScrollEvent wid vec2 "real \<times> real"
  | ResizeEvent wid vec2
  | SetCursor Cursor

text \<open>A handler returns a truth value or throws a \<^verbatim>\<open>std::exception\<close>.\<close>

datatype reply = Returns bool | Throws

text \<open>
  \<open>Exception\<close> is an exception in flight, \<open>Aborted\<close> the \<^verbatim>\<open>abort()\<close> of the
  \<^verbatim>\<open>catch\<close> blocks, \<open>NullDereference\<close> a member call through a null pointer.
\<close>

datatype error = Exception | Aborted | NullDereference

text \<open>
  The class \<^verbatim>\<open>Widget\<close> and its subclasses are not part of the sources at hand. What
  \<^verbatim>\<open>screen.cpp\<close> asks of them is a parameter of the model: the answers of the widgets'
  accessors at the time of the call, the result of hit-testing, the replies of the handlers,
  and the values reported by the backend. The answers stay the same while one function of the
  Screen runs: a handler acts on the Screen through its reply, and a handler that calls back
  into the Screen is outside the model.
\<close>

record widgets =
  screenW :: wid  \<comment> \<open>\<^verbatim>\<open>this\<close>, the Screen, root of the tree\<close>
  parent :: "wid \<Rightarrow> wid option"  \<comment> \<open>\<^verbatim>\<open>Widget::parent()\<close>\<close>
  kind :: "wid \<Rightarrow> kind"
  modal :: "wid \<Rightarrow> bool"  \<comment> \<open>\<^verbatim>\<open>Window::modal()\<close>\<close>
  focused :: "wid \<Rightarrow> bool"  \<comment> \<open>\<^verbatim>\<open>Widget::focused()\<close>\<close>
  contains :: "wid \<Rightarrow> vec2 \<Rightarrow> bool"  \<comment> \<open>\<^verbatim>\<open>Widget::contains(p)\<close>\<close>
  absolutePosition :: "wid \<Rightarrow> vec2"  \<comment> \<open>\<^verbatim>\<open>Widget::absolutePosition()\<close>\<close>
  cursor :: "wid \<Rightarrow> Cursor"  \<comment> \<open>\<^verbatim>\<open>Widget::cursor()\<close>\<close>
  findWidget :: "vec2 \<Rightarrow> wid option"  \<comment> \<open>\<^verbatim>\<open>findWidget(p)\<close> on the Screen\<close>
  reply :: "event \<Rightarrow> reply"  \<comment> \<open>what the receiver of a handler call does\<close>
  ngGetTime :: real
  ngGetFramebufferSize :: vec2
  ngGetWindowSize :: vec2

text \<open>
  The members of \<^verbatim>\<open>Screen\<close> that the modelled functions read or write (\<^verbatim>\<open>mChildren\<close>
  and \<^verbatim>\<open>mSize\<close> are inherited from \<^verbatim>\<open>Widget\<close>). \<^verbatim>\<open>mMouseState\<close> is a 32-bit
  \<^verbatim>\<open>int\<close> used as a bit mask. \<open>delivered\<close> is the record of the outgoing calls.
\<close>

record screen =
  mChildren :: "wid list"
  mFocusPath :: "wid list"
  mFBSize :: vec2
  mSize :: vec2
  mMouseState :: "32 word"
  mModifiers :: int
  mMousePos :: vec2
  mDragActive :: bool
  mDragWidget :: "wid option"
  mLastInteraction :: real
  mCursor :: Cursor
  delivered :: "event list"

definition NG_RELEASE :: int where "NG_RELEASE = 0"
definition NG_PRESS :: int where "NG_PRESS = 1"
definition NG_MOUSE_BUTTON_1 :: nat where "NG_MOUSE_BUTTON_1 = 0"
definition NG_MOUSE_BUTTON_2 :: nat where "NG_MOUSE_BUTTON_2 = 1"

definition vsub :: "vec2 \<Rightarrow> vec2 \<Rightarrow> vec2" where
  "vsub p q = (fst p - fst q, snd p - snd q)"

definition isWindow :: "widgets \<Rightarrow> wid \<Rightarrow> bool" where
  "isWindow E w = (kind E w \<noteq> PlainWidget)"

text \<open>
  A handler call: the reply decides between a return value and an exception; a call that
  returns is appended to the record.
\<close>

definition deliver :: "widgets \<Rightarrow> event \<Rightarrow> screen \<Rightarrow> error + bool \<times> screen" where
  "deliver E ev s =
     (case reply E ev of
        Throws \<Rightarrow> Inl Exception
      | Returns b \<Rightarrow> Inr (b, s\<lparr>delivered := delivered s @ [ev]\<rparr>))"

text \<open>
  The \<^verbatim>\<open>catch (const std::exception &)\<close> block of the callbacks prints a message and
  calls \<^verbatim>\<open>abort()\<close>.
\<close>

definition caught :: "error + 'a \<Rightarrow> error + 'a" where
  "caught r = (case r of Inl Exception \<Rightarrow> Inl Aborted | _ \<Rightarrow> r)"

section \<open>Window stacking: \<^verbatim>\<open>Screen::moveWindowToFront\<close> (lines 367--387)\<close>

text \<open>\<^verbatim>\<open>pw && pw->parentWindow() == window\<close> (lines 379--380).\<close>

definition isPopupOf :: "(wid \<Rightarrow> kind) \<Rightarrow> wid \<Rightarrow> wid \<Rightarrow> bool" where
  "isPopupOf K c window = (case K c of PopupWidget pw \<Rightarrow> pw = Some window | _ \<Rightarrow> False)"

text \<open>The first \<^verbatim>\<open>for\<close> loop (lines 373--376): the last index that holds the window, else 0.\<close>

definition baseIndexOf :: "wid list \<Rightarrow> wid \<Rightarrow> nat" where
  "baseIndexOf cs window =
     fold (\<lambda>index baseIndex. if cs ! index = window then index else baseIndex) [0..<length cs] 0"

text \<open>
  The second \<^verbatim>\<open>for\<close> loop (lines 378--385): the first index that holds a popup of the
  window in front of \<open>baseIndex\<close>, if there is one.
\<close>

definition scanPopups :: "(wid \<Rightarrow> kind) \<Rightarrow> wid list \<Rightarrow> wid \<Rightarrow> nat option" where
  "scanPopups K cs window =
     (let baseIndex = baseIndexOf cs window
      in find (\<lambda>index. isPopupOf K (cs ! index) window \<and> index < baseIndex) [0..<length cs])"

text \<open>
  The \<^verbatim>\<open>do ... while (changed)\<close> loop on the children \<open>cs\<close>. The recursive call
  \<^verbatim>\<open>moveWindowToFront(pw)\<close> of line 381 is written out as what it does: the erase and
  \<^verbatim>\<open>push_back\<close> of lines 368--369 for \<open>pw\<close>, then the loop for \<open>pw\<close>. The function is
  partial: \<open>None\<close> stands for a call that does not return.
\<close>

partial_function (option) sortLoop :: "(wid \<Rightarrow> kind) \<Rightarrow> wid \<Rightarrow> wid list \<Rightarrow> wid list option" where
  "sortLoop K window cs =
     (case scanPopups K cs window of
        None \<Rightarrow> Some cs
      | Some index \<Rightarrow>
          Option.bind (sortLoop K (cs ! index) (removeAll (cs ! index) cs @ [cs ! index]))
            (\<lambda>cs'. sortLoop K window cs'))"

declare sortLoop.simps [code]

definition moveWindowToFront :: "(wid \<Rightarrow> kind) \<Rightarrow> wid \<Rightarrow> wid list \<Rightarrow> wid list option" where
  "moveWindowToFront K window cs = sortLoop K window (removeAll window cs @ [window])"

text \<open>
  \<open>ranked\<close> says that the parent-window references of the widgets \<open>xs\<close> form no cycle:
  some rank is strictly smaller at every popup than at its parent window. The code does not
  test this; it is the condition under which \<^verbatim>\<open>moveWindowToFront\<close> returns.
\<close>

definition ranked :: "(wid \<Rightarrow> nat) \<Rightarrow> (wid \<Rightarrow> kind) \<Rightarrow> wid list \<Rightarrow> bool" where
  "ranked rank K xs =
     list_all (\<lambda>p. case K p of PopupWidget (Some q) \<Rightarrow> rank p < rank q | _ \<Rightarrow> True) xs"

section \<open>Focus: \<^verbatim>\<open>Screen::updateFocus\<close> (lines 330--349)\<close>

text \<open>The loop of lines 331--335 over the old focus path.\<close>

fun focusLostLoop :: "widgets \<Rightarrow> wid list \<Rightarrow> screen \<Rightarrow> error + screen" where
  "focusLostLoop E [] s = Inr s"
| "focusLostLoop E (w # ws) s =
     (if \<not> focused E w then focusLostLoop E ws s
      else (case deliver E (FocusEvent w False) s of
              Inl e \<Rightarrow> Inl e
            | Inr (_, s') \<Rightarrow> focusLostLoop E ws s'))"

text \<open>
  The \<^verbatim>\<open>while (widget)\<close> loop of lines 338--343, on the loop variables \<open>widget\<close>,
  \<open>mFocusPath\<close> and \<open>window\<close>. It returns no value when the parent references never reach
  \<^verbatim>\<open>nullptr\<close>.
\<close>

partial_function (option) focusWalk ::
  "widgets \<Rightarrow> wid option \<Rightarrow> wid list \<Rightarrow> wid option \<Rightarrow> (wid list \<times> wid option) option" where
  "focusWalk E widget path window =
     (case widget of
        None \<Rightarrow> Some (path, window)
      | Some w \<Rightarrow>
          focusWalk E (parent E w) (path @ [w]) (if isWindow E w then Some w else window))"

declare focusWalk.simps [code]

text \<open>The loop of lines 344--345, over the reversed new path.\<close>

fun focusGainedLoop :: "widgets \<Rightarrow> wid list \<Rightarrow> screen \<Rightarrow> error + screen" where
  "focusGainedLoop E [] s = Inr s"
| "focusGainedLoop E (w # ws) s =
     (case deliver E (FocusEvent w True) s of
        Inl e \<Rightarrow> Inl e
      | Inr (_, s') \<Rightarrow> focusGainedLoop E ws s')"

definition updateFocus :: "widgets \<Rightarrow> wid option \<Rightarrow> screen \<Rightarrow> (error + screen) option" where
  "updateFocus E widget s =
     (case focusLostLoop E (mFocusPath s) s of
        Inl e \<Rightarrow> Some (Inl e)
      | Inr s1 \<Rightarrow>
          (case focusWalk E widget [] None of
             None \<Rightarrow> None
           | Some (path, window) \<Rightarrow>
               (case focusGainedLoop E (rev path) (s1\<lparr>mFocusPath := path\<rparr>) of
                  Inl e \<Rightarrow> Some (Inl e)
                | Inr s2 \<Rightarrow>
                    (case window of
                       None \<Rightarrow> Some (Inr s2)
                     | Some win \<Rightarrow>
                         map_option (\<lambda>cs. Inr (s2\<lparr>mChildren := cs\<rparr>))
                           (moveWindowToFront (kind E) win (mChildren s2))))))"

text \<open>
  The ancestor chain of a widget, stated on its own: \<open>chain\<close> starts at \<open>w\<close>, each entry is
  followed by its parent, and the last entry has no parent.
\<close>

fun ancestorChain :: "(wid \<Rightarrow> wid option) \<Rightarrow> wid \<Rightarrow> wid list \<Rightarrow> bool" where
  "ancestorChain par w [] = False"
| "ancestorChain par w [x] = (x = w \<and> par w = None)"
| "ancestorChain par w (x # y # ys) = (x = w \<and> par w = Some y \<and> ancestorChain par y (y # ys))"

section \<open>Keyboard: \<^verbatim>\<open>Screen::keyboardEvent\<close>, \<^verbatim>\<open>Screen::keyboardCharacterEvent\<close> (lines 154--171)\<close>

text \<open>
  The two functions differ in the handler they call only; \<open>mk w\<close> is the call made on
  widget \<open>w\<close>. The loop runs over \<open>it\<close>, from \<^verbatim>\<open>mFocusPath.rbegin() + 1\<close> to
  \<^verbatim>\<open>mFocusPath.rend()\<close>.
\<close>

fun keyboardLoop :: "widgets \<Rightarrow> (wid \<Rightarrow> event) \<Rightarrow> wid list \<Rightarrow> screen \<Rightarrow> error + bool \<times> screen" where
  "keyboardLoop E mk [] s = Inr (False, s)"
| "keyboardLoop E mk (w # it) s =
     (if focused E w then
        (case deliver E (mk w) s of
           Inl e \<Rightarrow> Inl e
         | Inr (handled, s') \<Rightarrow> if handled then Inr (True, s') else keyboardLoop E mk it s')
      else keyboardLoop E mk it s)"

definition keyboardDispatch :: "widgets \<Rightarrow> (wid \<Rightarrow> event) \<Rightarrow> screen \<Rightarrow> error + bool \<times> screen" where
  "keyboardDispatch E mk s =
     (if length (mFocusPath s) > 0 then keyboardLoop E mk (tl (rev (mFocusPath s))) s
      else Inr (False, s))"

definition keyboardEvent :: "widgets \<Rightarrow> int \<Rightarrow> int \<Rightarrow> int \<Rightarrow> int \<Rightarrow> screen \<Rightarrow> error + bool \<times> screen" where
  "keyboardEvent E key scancode action modifiers s =
     keyboardDispatch E (\<lambda>w. KeyboardEvent w key scancode action modifiers) s"

definition keyboardCharacterEvent :: "widgets \<Rightarrow> 32 word \<Rightarrow> screen \<Rightarrow> error + bool \<times> screen" where
  "keyboardCharacterEvent E codepoint s =
     keyboardDispatch E (\<lambda>w. KeyboardCharacterEvent w codepoint) s"

text \<open>\<^verbatim>\<open>Screen::keyCallbackEvent\<close> (lines 259--267), \<^verbatim>\<open>Screen::charCallbackEvent\<close> (269--278).\<close>

definition keyCallbackEvent :: "widgets \<Rightarrow> int \<Rightarrow> int \<Rightarrow> int \<Rightarrow> int \<Rightarrow> screen \<Rightarrow> error + bool \<times> screen" where
  "keyCallbackEvent E key scancode action mods s =
     caught (keyboardEvent E key scancode action mods (s\<lparr>mLastInteraction := ngGetTime E\<rparr>))"

definition charCallbackEvent :: "widgets \<Rightarrow> 32 word \<Rightarrow> screen \<Rightarrow> error + bool \<times> screen" where
  "charCallbackEvent E codepoint s =
     caught (keyboardCharacterEvent E codepoint (s\<lparr>mLastInteraction := ngGetTime E\<rparr>))"

section \<open>Pointer: buttons, scrolling, motion\<close>

text \<open>
  The modality test of lines 213--220 and 290--297: it holds when the code takes the
  \<^verbatim>\<open>return false\<close> inside it.
\<close>

definition modalBlocks :: "widgets \<Rightarrow> screen \<Rightarrow> bool" where
  "modalBlocks E s =
     (length (mFocusPath s) > 1 \<and>
      (let window = mFocusPath s ! (length (mFocusPath s) - 2)
       in isWindow E window \<and> modal E window \<and> \<not> contains E window (mMousePos s)))"

text \<open>
  Lines 228--232: the release passed to the drag widget. The call goes through
  \<^verbatim>\<open>mDragWidget\<close> and through \<^verbatim>\<open>mDragWidget->parent()\<close>.
\<close>

definition releaseToDragWidget :: "widgets \<Rightarrow> nat \<Rightarrow> screen \<Rightarrow> error + screen" where
  "releaseToDragWidget E button s =
     (case mDragWidget s of
        None \<Rightarrow> Inl NullDereference
      | Some d \<Rightarrow>
          (case parent E d of
             None \<Rightarrow> Inl NullDereference
           | Some q \<Rightarrow>
               (case deliver E (MouseButtonEvent d (vsub (mMousePos s) (absolutePosition E q))
                                  button False (mModifiers s)) s of
                  Inl e \<Rightarrow> Inl e
                | Inr (_, s') \<Rightarrow> Inr s')))"

text \<open>Lines 234--237 (and 187--190): the cursor shape follows the widget under the pointer.\<close>

definition hoverCursor :: "widgets \<Rightarrow> wid option \<Rightarrow> screen \<Rightarrow> screen" where
  "hoverCursor E widget s =
     (case widget of
        None \<Rightarrow> s
      | Some d \<Rightarrow>
          if cursor E d \<noteq> mCursor s
          then s\<lparr>mCursor := cursor E d, delivered := delivered s @ [SetCursor (cursor E d)]\<rparr>
          else s)"

text \<open>Lines 239--249: start, restart or end of a drag.\<close>

definition updateDrag :: "widgets \<Rightarrow> nat \<Rightarrow> int \<Rightarrow> screen \<Rightarrow> (error + screen) option" where
  "updateDrag E button action s =
     (if action = NG_PRESS \<and> (button = NG_MOUSE_BUTTON_1 \<or> button = NG_MOUSE_BUTTON_2) then
        (let hit = findWidget E (mMousePos s);
             dragWidget = (if hit = Some (screenW E) then None else hit);
             s' = s\<lparr>mDragWidget := dragWidget, mDragActive := (dragWidget \<noteq> None)\<rparr>
         in if \<not> mDragActive s' then updateFocus E None s' else Some (Inr s'))
      else Some (Inr (s\<lparr>mDragActive := False, mDragWidget := None\<rparr>)))"

text \<open>
  \<^verbatim>\<open>Screen::mouseButtonCallbackEvent\<close> (lines 209--257). The button is a GLFW button
  code, 0 to 7, and \<^verbatim>\<open>1 << button\<close> its bit of the mask. The last step is the Screen's own
  \<^verbatim>\<open>mouseButtonEvent\<close>, inherited from \<^verbatim>\<open>Widget\<close>: a handler call like the others.
\<close>

definition mouseButtonCallbackEvent ::
  "widgets \<Rightarrow> nat \<Rightarrow> int \<Rightarrow> int \<Rightarrow> screen \<Rightarrow> (error + bool \<times> screen) option" where
  "mouseButtonCallbackEvent E button action modifiers s0 =
     (let s1 = s0\<lparr>mModifiers := modifiers, mLastInteraction := ngGetTime E\<rparr>
      in if modalBlocks E s1 then Some (Inr (False, s1))
         else
           (let s2 = s1\<lparr>mMouseState :=
                        (if action = NG_PRESS then mMouseState s1 OR push_bit button 1
                         else mMouseState s1 AND NOT (push_bit button 1))\<rparr>;
                dropWidget = findWidget E (mMousePos s2)
            in case (if mDragActive s2 \<and> action = NG_RELEASE \<and> dropWidget \<noteq> mDragWidget s2
                     then releaseToDragWidget E button s2 else Inr s2) of
                 Inl e \<Rightarrow> Some (caught (Inl e))
               | Inr s3 \<Rightarrow>
                   (case updateDrag E button action (hoverCursor E dropWidget s3) of
                      None \<Rightarrow> None
                    | Some (Inl e) \<Rightarrow> Some (caught (Inl e))
                    | Some (Inr s4) \<Rightarrow>
                        Some (caught (deliver E
                          (MouseButtonEvent (screenW E) (mMousePos s4) button
                             (action = NG_PRESS) (mModifiers s4)) s4)))))"

text \<open>
  \<^verbatim>\<open>Screen::scrollCallbackEvent\<close> (lines 287--304); the last step is the Screen's inherited
  \<^verbatim>\<open>scrollEvent\<close>.
\<close>

definition scrollCallbackEvent :: "widgets \<Rightarrow> real \<Rightarrow> real \<Rightarrow> screen \<Rightarrow> error + bool \<times> screen" where
  "scrollCallbackEvent E x y s0 =
     (let s1 = s0\<lparr>mLastInteraction := ngGetTime E\<rparr>
      in if modalBlocks E s1 then Inr (False, s1)
         else caught (deliver E (ScrollEvent (screenW E) (mMousePos s1) (x, y)) s1))"

text \<open>
  \<^verbatim>\<open>Screen::cursorPosCallbackEvent\<close> (lines 173--207), from the coordinates \<open>(x, y)\<close> as
  they are after the casts to \<^verbatim>\<open>int\<close>. The pixel ratio is the constant 1 that
  \<^verbatim>\<open>get_pixel_ratio\<close> returns, so the division of line 177 changes nothing.
\<close>

definition cursorPosCallbackEvent :: "widgets \<Rightarrow> int \<Rightarrow> int \<Rightarrow> screen \<Rightarrow> error + bool \<times> screen" where
  "cursorPosCallbackEvent E x y s0 =
     (let s1 = s0\<lparr>mLastInteraction := ngGetTime E\<rparr>;
          p = vsub (x, y) (1, 2)
      in case (if \<not> mDragActive s1 then Inr (False, hoverCursor E (findWidget E p) s1)
               else (case mDragWidget s1 of
                       None \<Rightarrow> Inl NullDereference
                     | Some d \<Rightarrow>
                         (case parent E d of
                            None \<Rightarrow> Inl NullDereference
                          | Some q \<Rightarrow>
                              caught (deliver E
                                (MouseDragEvent d (vsub p (absolutePosition E q))
                                   (vsub p (mMousePos s1)) (mMouseState s1) (mModifiers s1)) s1)))) of
           Inl e \<Rightarrow> Inl e
         | Inr (ret, s2) \<Rightarrow>
             (case (if \<not> ret
                    then caught (deliver E
                           (MouseMotionEvent (screenW E) p (vsub p (mMousePos s2))
                              (mMouseState s2) (mModifiers s2)) s2)
                    else Inr (ret, s2)) of
                Inl e \<Rightarrow> Inl e
              | Inr (ret', s3) \<Rightarrow> Inr (ret', s3\<lparr>mMousePos := p\<rparr>)))"

section \<open>Resizing and disposal\<close>

text \<open>
  \<^verbatim>\<open>Screen::resizeCallbackEvent\<close> (lines 306--328). The sizes are those the backend reports;
  the division by the pixel ratio 1 of line 312 changes nothing. The test of line 315 reads the
  member \<^verbatim>\<open>mFBSize\<close> and the local \<^verbatim>\<open>size\<close>.
\<close>

definition resizeCallbackEvent :: "widgets \<Rightarrow> screen \<Rightarrow> error + bool \<times> screen" where
  "resizeCallbackEvent E s =
     (let fbSize = ngGetFramebufferSize E;
          size = ngGetWindowSize E
      in if mFBSize s = (0, 0) \<or> size = (0, 0) then Inr (False, s)
         else caught (deliver E (ResizeEvent (screenW E) size)
                (s\<lparr>mFBSize := fbSize, mSize := size, mLastInteraction := ngGetTime E\<rparr>)))"

text \<open>
  Modelled from the spec: \<^verbatim>\<open>Widget::removeChild\<close> is not among the sources. The spec's data
  model has a widget leave the tree by removal from its parent's child sequence.
\<close>

definition removeChild :: "wid \<Rightarrow> screen \<Rightarrow> screen" where
  "removeChild widget s = s\<lparr>mChildren := removeAll widget (mChildren s)\<rparr>"

text \<open>\<^verbatim>\<open>Screen::disposeWindow\<close> (lines 351--357).\<close>

definition disposeWindow :: "wid \<Rightarrow> screen \<Rightarrow> screen" where
  "disposeWindow window s =
     (let s1 = (if window \<in> set (mFocusPath s) then s\<lparr>mFocusPath := []\<rparr> else s);
          s2 = (if mDragWidget s1 = Some window then s1\<lparr>mDragWidget := None\<rparr> else s1)
      in removeChild window s2)"

section \<open>Orders of delivery\<close>

text \<open>
  The entries of \<open>xs\<close> up to and including the first one that satisfies \<open>P\<close>: the
  receivers of an event that is passed along \<open>xs\<close> until one of them consumes it.
\<close>

definition upToFirst :: "('a \<Rightarrow> bool) \<Rightarrow> 'a list \<Rightarrow> 'a list" where
  "upToFirst P xs = takeWhile (\<lambda>x. \<not> P x) xs @ take 1 (dropWhile (\<lambda>x. \<not> P x) xs)"

text \<open>
  The focused widgets of a focus path without its last entry (the Screen), from the entry
  next to the Screen towards the leaf.
\<close>

definition outermostInward :: "widgets \<Rightarrow> wid list \<Rightarrow> wid list" where
  "outermostInward E path = filter (focused E) (rev (butlast path))"

text \<open>
  The same widgets in the order of the specification's sentence on key and character events:
  from the leaf outward.
\<close>

definition leafOutward :: "widgets \<Rightarrow> wid list \<Rightarrow> wid list" where
  "leafOutward E path = filter (focused E) (butlast path)"

section \<open>An example scene\<close>

text \<open>
  The Screen 0 holds a modal window 1 with a button 2, a second window 3, a popup 4 of
  window 3 and a popup 5 of popup 4. Window 1 covers the square from (10, 10) to (110, 110),
  the button the square from (20, 20) to (40, 40).
\<close>

definition exampleKind :: "wid \<Rightarrow> kind" where
  "exampleKind w =
     (if w = 1 \<or> w = 3 then WindowWidget
      else if w = 4 then PopupWidget (Some 3)
      else if w = 5 then PopupWidget (Some 4)
      else PlainWidget)"

definition exampleRank :: "wid \<Rightarrow> nat" where
  "exampleRank w = (if w = 3 then 2 else if w = 4 then 1 else 0)"

definition inSquare :: "int \<Rightarrow> int \<Rightarrow> vec2 \<Rightarrow> bool" where
  "inSquare lo hi p = (lo \<le> fst p \<and> fst p < hi \<and> lo \<le> snd p \<and> snd p < hi)"

definition exampleWidgets :: widgets where
  "exampleWidgets =
     \<lparr>screenW = 0,
      parent = (\<lambda>w. if w = 2 then Some 1 else if w = 0 then None else Some 0),
      kind = exampleKind,
      modal = (\<lambda>w. w = 1),
      focused = (\<lambda>w. True),
      contains = (\<lambda>w p. if w = 1 then inSquare 10 110 p else if w = 2 then inSquare 10 30 p else True),
      absolutePosition = (\<lambda>w. if w = 1 then (10, 10) else if w = 2 then (20, 20) else (0, 0)),
      cursor = (\<lambda>w. if w = 2 then Hand else Arrow),
      findWidget = (\<lambda>p. if inSquare 20 40 p then Some 2 else if inSquare 10 110 p then Some 1 else Some 0),
      reply = (\<lambda>ev. Returns False),
      ngGetTime = 7,
      ngGetFramebufferSize = (800, 600),
      ngGetWindowSize = (800, 600)\<rparr>"

definition exampleScreen :: screen where
  "exampleScreen =
     \<lparr>mChildren = [5, 4, 1, 3],
      mFocusPath = [2, 1, 0],
      mFBSize = (800, 600),
      mSize = (800, 600),
      mMouseState = 0,
      mModifiers = 0,
      mMousePos = (25, 25),
      mDragActive = False,
      mDragWidget = None,
      mLastInteraction = 0,
      mCursor = Arrow,
      delivered = []\<rparr>"

text \<open>Variations of the scene: what the widgets answer, and the state in which an event arrives.\<close>

definition unfocusedButton :: widgets where
  "unfocusedButton = exampleWidgets\<lparr>focused := (\<lambda>w. w \<noteq> 2)\<rparr>"

definition allConsume :: widgets where
  "allConsume = exampleWidgets\<lparr>reply := (\<lambda>ev. Returns True)\<rparr>"

definition zeroFramebuffer :: widgets where
  "zeroFramebuffer = exampleWidgets\<lparr>ngGetFramebufferSize := (0, 0)\<rparr>"

definition outsideModal :: screen where
  "outsideModal = exampleScreen\<lparr>mMousePos := (300, 300)\<rparr>"

definition draggingButton :: screen where
  "draggingButton = exampleScreen\<lparr>mMouseState := 1, mDragActive := True, mDragWidget := Some 2\<rparr>"

definition draggingWindow :: screen where
  "draggingWindow = exampleScreen\<lparr>mMouseState := 1, mDragActive := True, mDragWidget := Some 1\<rparr>"

definition draggedOff :: screen where
  "draggedOff = draggingButton\<lparr>mMousePos := (60, 60)\<rparr>"


text \<open>The first loop of \<^verbatim>\<open>moveWindowToFront\<close> after \<open>n\<close> rounds.\<close>

definition lastIndexBelow :: "wid list \<Rightarrow> wid \<Rightarrow> nat \<Rightarrow> nat" where
  "lastIndexBelow cs w n =
     fold (\<lambda>index baseIndex. if cs ! index = w then index else baseIndex) [0..<n] 0"

section \<open>Window stacking: the order after \<^verbatim>\<open>moveWindowToFront\<close>\<close>

lemma lastIndexBelow_0: "lastIndexBelow cs w 0 = 0"
  by (simp add: lastIndexBelow_def)

lemma lastIndexBelow_Suc:
  "lastIndexBelow cs w (Suc n) = (if cs ! n = w then n else lastIndexBelow cs w n)"
  by (simp add: lastIndexBelow_def)

lemma lastIndexBelow_upper:
  "j < n \<Longrightarrow> cs ! j = w \<Longrightarrow> j \<le> lastIndexBelow cs w n"
proof (induction n)
  case 0
  then show ?case by simp
next
  case (Suc n)
  show ?case
  proof (cases "cs ! n = w")
    case True
    with Suc.prems show ?thesis by (simp add: lastIndexBelow_Suc)
  next
    case False
    with Suc.prems have "j < n" by (cases "j = n") simp_all
    with Suc.IH Suc.prems False show ?thesis by (simp add: lastIndexBelow_Suc)
  qed
qed

lemma lastIndexBelow_hit:
  "j < n \<Longrightarrow> cs ! j = w \<Longrightarrow> lastIndexBelow cs w n < n \<and> cs ! lastIndexBelow cs w n = w"
proof (induction n)
  case 0
  then show ?case by simp
next
  case (Suc n)
  show ?case
  proof (cases "cs ! n = w")
    case True
    then show ?thesis by (simp add: lastIndexBelow_Suc)
  next
    case False
    with Suc.prems have "j < n" by (cases "j = n") simp_all
    with Suc.IH Suc.prems False show ?thesis by (simp add: lastIndexBelow_Suc)
  qed
qed

lemma baseIndexOf_eq: "baseIndexOf cs w = lastIndexBelow cs w (length cs)"
  by (simp add: baseIndexOf_def lastIndexBelow_def)

lemma baseIndexOf_upper:
  "j < length cs \<Longrightarrow> cs ! j = w \<Longrightarrow> j \<le> baseIndexOf cs w"
  by (simp add: baseIndexOf_eq lastIndexBelow_upper)

lemma baseIndexOf_hit:
  assumes "w \<in> set cs"
  shows "baseIndexOf cs w < length cs \<and> cs ! baseIndexOf cs w = w"
proof -
  from assms obtain j where "j < length cs" "cs ! j = w"
    by (auto simp: in_set_conv_nth)
  then show ?thesis
    unfolding baseIndexOf_eq by (rule lastIndexBelow_hit)
qed

lemma baseIndexOf_split:
  assumes "w \<notin> set rest"
  shows "baseIndexOf (F @ w # rest) w = length F"
proof -
  let ?cs = "F @ w # rest"
  have a: "length F \<le> baseIndexOf ?cs w"
    by (rule baseIndexOf_upper) simp_all
  have b: "baseIndexOf ?cs w < length ?cs" "?cs ! baseIndexOf ?cs w = w"
    using baseIndexOf_hit [of w ?cs] by simp_all
  show ?thesis
  proof (rule ccontr)
    assume "baseIndexOf ?cs w \<noteq> length F"
    with a have gt: "length F < baseIndexOf ?cs w" by simp
    then obtain k where k: "baseIndexOf ?cs w = length F + Suc k"
      using less_iff_Suc_add by auto
    with b have "k < length rest" "rest ! k = w"
      by (simp_all add: nth_append)
    with assms show False using nth_mem by blast
  qed
qed

lemma scanPopups_None:
  "scanPopups K cs w = None \<Longrightarrow> index < length cs \<Longrightarrow> isPopupOf K (cs ! index) w \<Longrightarrow>
   baseIndexOf cs w \<le> index"
  unfolding scanPopups_def Let_def find_None_iff by force

lemma scanPopups_Some:
  "scanPopups K cs w = Some index \<Longrightarrow>
   index < length cs \<and> isPopupOf K (cs ! index) w \<and> index < baseIndexOf cs w"
  unfolding scanPopups_def Let_def find_Some_iff by auto

lemma sortLoop_scan:
  assumes "sortLoop K w cs = Some cs'"
  shows "scanPopups K cs' w = None"
  using assms
proof (rule sortLoop.raw_induct [rotated])
  fix f K window cs cs'
  assume IH: "\<And>K window cs y. f K window cs = Some y \<Longrightarrow> scanPopups K y window = None"
    and body: "(case scanPopups K cs window of
        None \<Rightarrow> Some cs
      | Some index \<Rightarrow>
          Option.bind (f K (cs ! index) (removeAll (cs ! index) cs @ [cs ! index]))
            (f K window)) = Some cs'"
  show "scanPopups K cs' window = None"
  proof (cases "scanPopups K cs window")
    case None
    with body show ?thesis by simp
  next
    case (Some index)
    with body obtain cs1 where "f K window cs1 = Some cs'"
      by (auto simp: bind_eq_Some_conv)
    then show ?thesis by (rule IH)
  qed
qed

text \<open>
  Claim C6. When \<^verbatim>\<open>moveWindowToFront(win)\<close> has returned, every popup among the children
  whose parent window is \<open>win\<close> stands at a strictly greater index than \<open>win\<close>. A popup is
  not its own parent window: it is constructed for a window that exists before it.
\<close>

theorem popups_after_window:
  assumes ret: "moveWindowToFront K win cs = Some cs'"
    and self: "\<not> isPopupOf K win win"
    and i: "i < length cs'" and P: "isPopupOf K (cs' ! i) win"
    and j: "j < length cs'" and W: "cs' ! j = win"
  shows "j < i"
proof -
  have "scanPopups K cs' win = None"
    using ret unfolding moveWindowToFront_def by (rule sortLoop_scan)
  then have "baseIndexOf cs' win \<le> i" using i P by (rule scanPopups_None)
  moreover have "j \<le> baseIndexOf cs' win" using j W by (rule baseIndexOf_upper)
  moreover have "i \<noteq> j" using P W self by auto
  ultimately show ?thesis by simp
qed

theorem popups_after_window_witness:
  "moveWindowToFront exampleKind 3 [5, 4, 1, 3] = Some [1, 3, 4, 5] \<and>
   \<not> isPopupOf exampleKind 3 3 \<and> isPopupOf exampleKind ([1, 3, 4, 5] ! 2) 3 \<and>
   [1, 3, 4, 5] ! 1 = (3::nat) \<and> (1::nat) < 2"
proof -
  have a: "moveWindowToFront exampleKind 3 [5, 4, 1, 3] = Some [1, 3, 4, 5]"
    by code_simp
  have b: "\<not> isPopupOf exampleKind 3 3"
    by (simp add: isPopupOf_def exampleKind_def)
  have c: "isPopupOf exampleKind ([1, 3, 4, 5] ! 2) 3"
    by (simp add: isPopupOf_def exampleKind_def)
  have d: "[1, 3, 4, 5] ! 1 = (3::nat)" by simp
  have "(1::nat) < 2"
    using popups_after_window [OF a b _ c _ d] by simp
  with a b c d show ?thesis by blast
qed

section \<open>Window stacking: termination\<close>

lemma ranked_rank:
  "ranked rank K xs \<Longrightarrow> p \<in> set xs \<Longrightarrow> isPopupOf K p q \<Longrightarrow> rank p < rank q"
  by (auto simp: ranked_def isPopupOf_def list_all_iff split: kind.splits option.splits)

lemma ranked_subset:
  "ranked rank K xs \<Longrightarrow> set ys \<subseteq> set xs \<Longrightarrow> ranked rank K ys"
  unfolding ranked_def list_all_iff by blast

lemma scan_front:
  assumes "x \<notin> set rest" and "scanPopups K (F @ x # rest) x = Some i"
  shows "i < length F \<and> isPopupOf K (F ! i) x"
proof -
  from scanPopups_Some [OF assms(2)]
  have "isPopupOf K ((F @ x # rest) ! i) x" and "i < baseIndexOf (F @ x # rest) x"
    by simp_all
  moreover have "baseIndexOf (F @ x # rest) x = length F"
    using assms(1) by (rule baseIndexOf_split)
  ultimately show ?thesis by (simp add: nth_append)
qed

lemma sortLoop_total:
  assumes rk: "ranked rank K (x # cs)"
    and outer: "\<And>p cs1. rank p < rank x \<Longrightarrow> ranked rank K (p # cs1) \<Longrightarrow>
       \<exists>tl. moveWindowToFront K p cs1 = Some (filter (\<lambda>y. y \<notin> set tl) cs1 @ tl) \<and> p \<in> set tl \<and>
            (\<forall>y\<in>set tl. y = p \<or> (y \<in> set cs1 \<and> rank y < rank p))"
  shows "F = filter (\<lambda>y. y \<notin> set (x # rest)) cs \<Longrightarrow>
     (\<forall>y\<in>set rest. y \<in> set cs \<and> rank y < rank x) \<Longrightarrow>
     \<exists>rest'. sortLoop K x (F @ x # rest) = Some (filter (\<lambda>y. y \<notin> set (x # rest')) cs @ x # rest') \<and>
        (\<forall>y\<in>set rest'. y \<in> set cs \<and> rank y < rank x)"
proof (induction "length F" arbitrary: F rest rule: less_induct)
  case less
  let ?cs = "F @ x # rest"
  have xrest: "x \<notin> set rest" using less.prems(2) by auto
  have Fsub: "set F \<subseteq> set cs" using less.prems(1) by auto
  show ?case
  proof (cases "scanPopups K ?cs x")
    case None
    have "sortLoop K x ?cs = Some ?cs"
      using sortLoop.simps [of K x ?cs] None by simp
    with less.prems show ?thesis by blast
  next
    case (Some i)
    from scan_front [OF xrest Some] have i: "i < length F" "isPopupOf K (F ! i) x"
      by simp_all
    let ?pw = "F ! i"
    have pwF: "?pw \<in> set F" using i(1) by simp
    have pwcs: "?pw \<in> set cs" using pwF Fsub by blast
    have nth: "?cs ! i = ?pw" using i(1) by (simp add: nth_append)
    have rpw: "rank ?pw < rank x"
      using rk pwcs i(2) by (auto intro: ranked_rank)
    have "set (?pw # ?cs) \<subseteq> set (x # cs)"
      using pwcs Fsub less.prems(2) by auto
    with rk have "ranked rank K (?pw # ?cs)" by (rule ranked_subset)
    from outer [OF rpw this] obtain tl where
      tl: "moveWindowToFront K ?pw ?cs = Some (filter (\<lambda>y. y \<notin> set tl) ?cs @ tl)"
        "?pw \<in> set tl"
        "\<forall>y\<in>set tl. y = ?pw \<or> (y \<in> set ?cs \<and> rank y < rank ?pw)"
      by blast
    have xtl: "x \<notin> set tl" using tl(3) rpw by auto
    define F' where "F' = filter (\<lambda>y. y \<notin> set tl) F"
    define rest' where "rest' = filter (\<lambda>y. y \<notin> set tl) rest @ tl"
    have eq: "filter (\<lambda>y. y \<notin> set tl) ?cs @ tl = F' @ x # rest'"
      using xtl by (simp add: F'_def rest'_def)
    have len: "length F' < length F"
      unfolding F'_def using pwF tl(2) by (intro length_filter_less) auto
    have F'eq: "F' = filter (\<lambda>y. y \<notin> set (x # rest')) cs"
      unfolding F'_def rest'_def less.prems(1) filter_filter
      by (rule filter_cong) auto
    have rest'ok: "\<forall>y\<in>set rest'. y \<in> set cs \<and> rank y < rank x"
    proof
      fix y assume "y \<in> set rest'"
      then consider "y \<in> set rest" | "y \<in> set tl" by (auto simp: rest'_def)
      then show "y \<in> set cs \<and> rank y < rank x"
      proof cases
        case 1
        then show ?thesis using less.prems(2) by blast
      next
        case 2
        with tl(3) have "y = ?pw \<or> (y \<in> set ?cs \<and> rank y < rank ?pw)" by blast
        then show ?thesis
        proof
          assume "y = ?pw"
          then show ?thesis using pwcs rpw by simp
        next
          assume y: "y \<in> set ?cs \<and> rank y < rank ?pw"
          then have "rank y < rank x" using rpw by simp
          moreover from this y have "y \<in> set F \<or> y \<in> set rest" by auto
          then have "y \<in> set cs" using Fsub less.prems(2) by blast
          ultimately show ?thesis by simp
        qed
      qed
    qed
    from less.hyps [OF len F'eq rest'ok] obtain r where
      r: "sortLoop K x (F' @ x # rest') = Some (filter (\<lambda>y. y \<notin> set (x # r)) cs @ x # r)"
        "\<forall>y\<in>set r. y \<in> set cs \<and> rank y < rank x"
      by blast
    have "sortLoop K x ?cs = Option.bind (moveWindowToFront K ?pw ?cs) (sortLoop K x)"
      using sortLoop.simps [of K x ?cs] Some nth by (simp add: moveWindowToFront_def)
    also have "\<dots> = sortLoop K x (F' @ x # rest')"
      using tl(1) eq by simp
    finally have "sortLoop K x ?cs = Some (filter (\<lambda>y. y \<notin> set (x # r)) cs @ x # r)"
      using r(1) by simp
    with r(2) show ?thesis by (intro exI [of _ r] conjI)
  qed
qed

lemma moveWindowToFront_total:
  "ranked rank K (x # cs) \<Longrightarrow>
   \<exists>tl. moveWindowToFront K x cs = Some (filter (\<lambda>y. y \<notin> set tl) cs @ tl) \<and> x \<in> set tl \<and>
        (\<forall>y\<in>set tl. y = x \<or> (y \<in> set cs \<and> rank y < rank x))"
proof (induction "rank x" arbitrary: x cs rule: less_induct)
  case less
  have F: "removeAll x cs = filter (\<lambda>y. y \<notin> set (x # [])) cs"
    by (induction cs) auto
  have "\<forall>y\<in>set []. y \<in> set cs \<and> rank y < rank x" by simp
  from sortLoop_total [of rank K x cs, OF less.prems less.hyps F this]
  obtain r where
    r: "sortLoop K x (removeAll x cs @ x # []) = Some (filter (\<lambda>y. y \<notin> set (x # r)) cs @ x # r)"
      "\<forall>y\<in>set r. y \<in> set cs \<and> rank y < rank x"
    by blast
  show ?case
  proof (intro exI conjI)
    show "moveWindowToFront K x cs = Some (filter (\<lambda>y. y \<notin> set (x # r)) cs @ x # r)"
      using r(1) by (simp add: moveWindowToFront_def)
    show "x \<in> set (x # r)" by simp
    show "\<forall>y\<in>set (x # r). y = x \<or> (y \<in> set cs \<and> rank y < rank x)"
      using r(2) by simp
  qed
qed







section \<open>Focus\<close>

lemma focusLostLoop_events:
  "\<forall>x\<in>set ws. reply E (FocusEvent x False) \<noteq> Throws \<Longrightarrow>
   focusLostLoop E ws s =
     Inr (s\<lparr>delivered := delivered s @ map (\<lambda>x. FocusEvent x False) (filter (focused E) ws)\<rparr>)"
proof (induction ws arbitrary: s)
  case Nil
  then show ?case by simp
next
  case (Cons w ws)
  then obtain b where b: "reply E (FocusEvent w False) = Returns b"
    by (cases "reply E (FocusEvent w False)") auto
  from Cons.prems have rest: "\<forall>x\<in>set ws. reply E (FocusEvent x False) \<noteq> Throws" by simp
  show ?case
    by (simp add: Cons.IH [OF rest] deliver_def b)
qed

lemma focusGainedLoop_events:
  "\<forall>x\<in>set ws. reply E (FocusEvent x True) \<noteq> Throws \<Longrightarrow>
   focusGainedLoop E ws s =
     Inr (s\<lparr>delivered := delivered s @ map (\<lambda>x. FocusEvent x True) ws\<rparr>)"
proof (induction ws arbitrary: s)
  case Nil
  then show ?case by simp
next
  case (Cons w ws)
  then obtain b where b: "reply E (FocusEvent w True) = Returns b"
    by (cases "reply E (FocusEvent w True)") auto
  from Cons.prems have rest: "\<forall>x\<in>set ws. reply E (FocusEvent x True) \<noteq> Throws" by simp
  show ?case
    by (simp add: Cons.IH [OF rest] deliver_def b)
qed

lemma find_app:
  "find P (xs @ ys) = (case find P xs of None \<Rightarrow> find P ys | Some x \<Rightarrow> Some x)"
  by (induction xs) simp_all

lemma focusWalk_chain:
  "ancestorChain (parent E) w chain \<Longrightarrow>
   focusWalk E (Some w) path window =
     Some (path @ chain, case find (isWindow E) (rev chain) of None \<Rightarrow> window | Some x \<Rightarrow> Some x)"
proof (induction "parent E" w chain arbitrary: path window rule: ancestorChain.induct)
  case (1 w)
  then show ?case by simp
next
  case (2 w x)
  then show ?case
    by (simp add: focusWalk.simps [of E "Some w"] focusWalk.simps [of E None])
next
  case (3 w x y ys)
  then have x: "x = w" and p: "parent E w = Some y" and c: "ancestorChain (parent E) y (y # ys)"
    by simp_all
  have "focusWalk E (Some w) path window =
        focusWalk E (Some y) (path @ [w]) (if isWindow E w then Some w else window)"
    by (simp add: focusWalk.simps [of E "Some w"] p)
  also have "\<dots> = Some ((path @ [w]) @ (y # ys),
       case find (isWindow E) (rev (y # ys)) of
         None \<Rightarrow> (if isWindow E w then Some w else window) | Some x \<Rightarrow> Some x)"
    using 3 c by blast
  finally show ?case
    by (simp add: x find_app split: option.splits)
qed

lemma find_mem: "find P xs = Some x \<Longrightarrow> x \<in> set xs"
  by (auto simp: find_Some_iff)

lemma count_list_map_filter:
  "distinct ws \<Longrightarrow>
   count_list (map (\<lambda>x. FocusEvent x False) (filter P ws)) (FocusEvent x False) =
     (if x \<in> set ws \<and> P x then 1 else 0)"
  by (induction ws) auto

text \<open>
  Claim C1, as the code has it. Let the parent references of \<open>w\<close> end after finitely many
  steps, \<open>chain\<close> being \<open>w\<close> and its ancestors up to the root. Then \<^verbatim>\<open>updateFocus(w)\<close>
  returns with \<^verbatim>\<open>mFocusPath\<close> equal to \<open>chain\<close>, leaf first. Focus-lost notifications go to
  the widgets of the old path that report themselves focused, one each, whether or not they are
  on the new path; a widget of the old path that does not report itself focused receives none.
  After them the widgets of the new path receive focus-gained notifications from the root to
  the leaf.
\<close>

theorem updateFocus_path:
  assumes chain: "ancestorChain (parent E) w chain"
    and acyclic: "ranked rank (kind E) (chain @ mChildren s)"
    and lost: "\<forall>x\<in>set (mFocusPath s). reply E (FocusEvent x False) \<noteq> Throws"
    and gained: "\<forall>x\<in>set chain. reply E (FocusEvent x True) \<noteq> Throws"
    and old: "distinct (mFocusPath s)"
  shows "\<exists>s' lostEvents.
     updateFocus E (Some w) s = Some (Inr s') \<and>
     mFocusPath s' = chain \<and>
     delivered s' = delivered s @ lostEvents @ map (\<lambda>x. FocusEvent x True) (rev chain) \<and>
     lostEvents = map (\<lambda>x. FocusEvent x False) (filter (focused E) (mFocusPath s)) \<and>
     (\<forall>x. count_list lostEvents (FocusEvent x False) =
          (if x \<in> set (mFocusPath s) \<and> focused E x then 1 else 0))"
proof -
  let ?lost = "map (\<lambda>x. FocusEvent x False) (filter (focused E) (mFocusPath s))"
  let ?s1 = "s\<lparr>delivered := delivered s @ ?lost\<rparr>"
  let ?s2 = "?s1\<lparr>mFocusPath := chain,
                 delivered := delivered s @ ?lost @ map (\<lambda>x. FocusEvent x True) (rev chain)\<rparr>"
  have l: "focusLostLoop E (mFocusPath s) s = Inr ?s1"
    using lost by (rule focusLostLoop_events)
  have wk: "focusWalk E (Some w) [] None = Some (chain, find (isWindow E) (rev chain))"
    using focusWalk_chain [OF chain, of "[]" None] by (simp split: option.splits)
  have g: "focusGainedLoop E (rev chain) (?s1\<lparr>mFocusPath := chain\<rparr>) = Inr ?s2"
    using gained focusGainedLoop_events [of "rev chain" E "?s1\<lparr>mFocusPath := chain\<rparr>"] by simp
  have cnt: "\<forall>x. count_list ?lost (FocusEvent x False) =
          (if x \<in> set (mFocusPath s) \<and> focused E x then 1 else 0)"
    using old by (simp add: count_list_map_filter)
  show ?thesis
  proof (cases "find (isWindow E) (rev chain)")
    case None
    have "updateFocus E (Some w) s = Some (Inr ?s2)"
      by (simp add: updateFocus_def l wk g None)
    then show ?thesis using cnt by (intro exI [of _ ?s2] exI [of _ ?lost]) simp
  next
    case (Some win)
    then have "win \<in> set chain" using find_mem by fastforce
    then have "set (win # mChildren s) \<subseteq> set (chain @ mChildren s)" by auto
    with acyclic have "ranked rank (kind E) (win # mChildren s)" by (rule ranked_subset)
    then obtain cs' where cs': "moveWindowToFront (kind E) win (mChildren s) = Some cs'"
      using moveWindowToFront_total by blast
    have "updateFocus E (Some w) s = Some (Inr (?s2\<lparr>mChildren := cs'\<rparr>))"
      by (simp add: updateFocus_def l wk g Some cs')
    then show ?thesis using cnt
      by (intro exI [of _ "?s2\<lparr>mChildren := cs'\<rparr>"] exI [of _ ?lost]) simp
  qed
qed

theorem updateFocus_path_witness:
  "ancestorChain (parent exampleWidgets) 2 [2, 1, 0] \<and>
   ranked exampleRank (kind exampleWidgets) ([2, 1, 0] @ mChildren exampleScreen) \<and>
   distinct (mFocusPath exampleScreen) \<and>
   (\<exists>s' lostEvents.
     updateFocus exampleWidgets (Some 2) exampleScreen = Some (Inr s') \<and>
     mFocusPath s' = [2, 1, 0] \<and>
     delivered s' = delivered exampleScreen @ lostEvents @ map (\<lambda>x. FocusEvent x True) (rev [2, 1, 0]) \<and>
     lostEvents = map (\<lambda>x. FocusEvent x False) (filter (focused exampleWidgets) (mFocusPath exampleScreen)) \<and>
     (\<forall>x. count_list lostEvents (FocusEvent x False) =
          (if x \<in> set (mFocusPath exampleScreen) \<and> focused exampleWidgets x then 1 else 0)))"
proof -
  have a: "ancestorChain (parent exampleWidgets) 2 [2, 1, 0]"
    by (simp add: exampleWidgets_def)
  have b: "ranked exampleRank (kind exampleWidgets) ([2, 1, 0] @ mChildren exampleScreen)"
    by (simp add: ranked_def exampleRank_def exampleKind_def exampleWidgets_def exampleScreen_def)
  have c: "\<forall>x\<in>set (mFocusPath exampleScreen). reply exampleWidgets (FocusEvent x False) \<noteq> Throws"
    by (simp add: exampleWidgets_def)
  have d: "\<forall>x\<in>set [2, 1, 0]. reply exampleWidgets (FocusEvent x True) \<noteq> Throws"
    by (simp add: exampleWidgets_def)
  have e: "distinct (mFocusPath exampleScreen)"
    by (simp add: exampleScreen_def)
  from updateFocus_path [OF a b c d e] a b e show ?thesis by blast
qed

text \<open>
  The button 2 is on the old focus path and not on the new one, and does not report itself
  focused: line 332 skips it, and it receives no focus-lost notification.
\<close>

theorem updateFocus_unfocused_counterexample:
  "updateFocus unfocusedButton (Some 3) exampleScreen =
     Some (Inr (exampleScreen\<lparr>mChildren := [1, 3, 4, 5], mFocusPath := [3, 0],
        delivered := [FocusEvent 1 False, FocusEvent 0 False, FocusEvent 0 True, FocusEvent 3 True]\<rparr>)) \<and>
   2 \<in> set (mFocusPath exampleScreen) \<and> 2 \<notin> set [3, 0::nat] \<and>
   count_list [FocusEvent 1 False, FocusEvent 0 False, FocusEvent 0 True, FocusEvent 3 True]
     (FocusEvent 2 False) = 0"
proof -
  have w: "focusWalk unfocusedButton (Some 3) [] None = Some ([3, 0], Some 3)"
    by (simp add: focusWalk.simps unfocusedButton_def exampleWidgets_def isWindow_def exampleKind_def)
  have m: "moveWindowToFront exampleKind 3 [5, 4, 1, 3] = Some [1, 3, 4, 5]"
    by code_simp
  have "updateFocus unfocusedButton (Some 3) exampleScreen =
     Some (Inr (exampleScreen\<lparr>mChildren := [1, 3, 4, 5], mFocusPath := [3, 0],
        delivered := [FocusEvent 1 False, FocusEvent 0 False, FocusEvent 0 True, FocusEvent 3 True]\<rparr>))"
    unfolding updateFocus_def w using m
    by (simp add: unfocusedButton_def exampleWidgets_def exampleScreen_def deliver_def)
  then show ?thesis by (simp add: exampleScreen_def)
qed

section \<open>Keyboard\<close>

lemma upToFirst_Cons:
  "upToFirst P (x # xs) = (if P x then [x] else x # upToFirst P xs)"
  by (simp add: upToFirst_def)

lemma upToFirst_Nil: "upToFirst P [] = []"
  by (simp add: upToFirst_def)

lemma keyboardLoop_result:
  "\<forall>w\<in>set ws. focused E w \<longrightarrow> reply E (mk w) \<noteq> Throws \<Longrightarrow>
   keyboardLoop E mk ws s =
     Inr (\<exists>w\<in>set (filter (focused E) ws). reply E (mk w) = Returns True,
          s\<lparr>delivered := delivered s @ map mk (upToFirst (\<lambda>w. reply E (mk w) = Returns True) (filter (focused E) ws))\<rparr>)"
proof (induction ws arbitrary: s)
  case Nil
  then show ?case by (simp add: upToFirst_Nil)
next
  case (Cons w ws)
  from Cons.prems have rest: "\<forall>w\<in>set ws. focused E w \<longrightarrow> reply E (mk w) \<noteq> Throws"
    by simp
  show ?case
  proof (cases "focused E w")
    case False
    then show ?thesis by (simp add: Cons.IH [OF rest])
  next
    case True
    with Cons.prems obtain b where b: "reply E (mk w) = Returns b"
      by (cases "reply E (mk w)") auto
    show ?thesis
    proof (cases b)
      case True
      with b \<open>focused E w\<close> show ?thesis
        by (simp add: deliver_def upToFirst_Cons)
    next
      case False
      with b \<open>focused E w\<close> show ?thesis
        by (simp add: deliver_def upToFirst_Cons Cons.IH [OF rest])
    qed
  qed
qed

lemma tl_rev_butlast: "tl (rev xs) = rev (butlast xs)"
  by (induction xs rule: rev_induct) simp_all

lemma keyboardDispatch_result:
  assumes "\<forall>w\<in>set (butlast (mFocusPath s)). focused E w \<longrightarrow> reply E (mk w) \<noteq> Throws"
  shows "keyboardDispatch E mk s =
     Inr (\<exists>w\<in>set (outermostInward E (mFocusPath s)). reply E (mk w) = Returns True,
          s\<lparr>delivered := delivered s @
               map mk (upToFirst (\<lambda>w. reply E (mk w) = Returns True) (outermostInward E (mFocusPath s)))\<rparr>)"
proof (cases "mFocusPath s = []")
  case True
  then show ?thesis
    by (simp add: keyboardDispatch_def outermostInward_def upToFirst_Nil)
next
  case False
  have "\<forall>w\<in>set (tl (rev (mFocusPath s))). focused E w \<longrightarrow> reply E (mk w) \<noteq> Throws"
    using assms by (simp add: tl_rev_butlast)
  from keyboardLoop_result [OF this] False show ?thesis
    by (simp add: keyboardDispatch_def outermostInward_def tl_rev_butlast)
qed

text \<open>
  Claim C2, as the code has it. With a non-empty focus path, a key or character callback
  passes the event to the focused widgets of the path, the Screen at its end left out, starting
  next to the Screen and going towards the leaf, and stops at the first widget that consumes it.
  The callback returns true if and only if one of these widgets consumes the event.
\<close>

theorem keyboard_delivery_order:
  assumes "mFocusPath s \<noteq> []"
    and "\<forall>w\<in>set (butlast (mFocusPath s)). focused E w \<longrightarrow>
           reply E (KeyboardEvent w key scancode action mods) \<noteq> Throws \<and>
           reply E (KeyboardCharacterEvent w codepoint) \<noteq> Throws"
  shows "keyCallbackEvent E key scancode action mods s =
     Inr (\<exists>w\<in>set (outermostInward E (mFocusPath s)).
            reply E (KeyboardEvent w key scancode action mods) = Returns True,
          s\<lparr>mLastInteraction := ngGetTime E,
            delivered := delivered s @
              map (\<lambda>w. KeyboardEvent w key scancode action mods)
                (upToFirst (\<lambda>w. reply E (KeyboardEvent w key scancode action mods) = Returns True)
                   (outermostInward E (mFocusPath s)))\<rparr>) \<and>
   charCallbackEvent E codepoint s =
     Inr (\<exists>w\<in>set (outermostInward E (mFocusPath s)).
            reply E (KeyboardCharacterEvent w codepoint) = Returns True,
          s\<lparr>mLastInteraction := ngGetTime E,
            delivered := delivered s @
              map (\<lambda>w. KeyboardCharacterEvent w codepoint)
                (upToFirst (\<lambda>w. reply E (KeyboardCharacterEvent w codepoint) = Returns True)
                   (outermostInward E (mFocusPath s)))\<rparr>)"
proof -
  let ?s = "s\<lparr>mLastInteraction := ngGetTime E\<rparr>"
  have k: "\<forall>w\<in>set (butlast (mFocusPath ?s)). focused E w \<longrightarrow>
      reply E (KeyboardEvent w key scancode action mods) \<noteq> Throws"
    using assms(2) by simp
  have c: "\<forall>w\<in>set (butlast (mFocusPath ?s)). focused E w \<longrightarrow>
      reply E (KeyboardCharacterEvent w codepoint) \<noteq> Throws"
    using assms(2) by simp
  show ?thesis
    using keyboardDispatch_result [OF k] keyboardDispatch_result [OF c]
    by (simp add: keyCallbackEvent_def charCallbackEvent_def keyboardEvent_def
        keyboardCharacterEvent_def caught_def)
qed

theorem keyboard_delivery_order_witness:
  "mFocusPath exampleScreen \<noteq> [] \<and>
   keyCallbackEvent allConsume 65 0 1 0 exampleScreen =
     Inr (True, exampleScreen\<lparr>mLastInteraction := 7, delivered := [KeyboardEvent 1 65 0 1 0]\<rparr>) \<and>
   charCallbackEvent allConsume 97 exampleScreen =
     Inr (True, exampleScreen\<lparr>mLastInteraction := 7, delivered := [KeyboardCharacterEvent 1 97]\<rparr>)"
proof -
  have a: "mFocusPath exampleScreen \<noteq> []" by (simp add: exampleScreen_def)
  have b: "\<forall>w\<in>set (butlast (mFocusPath exampleScreen)). focused allConsume w \<longrightarrow>
           reply allConsume (KeyboardEvent w 65 0 1 0) \<noteq> Throws \<and>
           reply allConsume (KeyboardCharacterEvent w 97) \<noteq> Throws"
    by (simp add: allConsume_def exampleWidgets_def)
  have o: "outermostInward allConsume (mFocusPath exampleScreen) = [1, 2]"
    by (simp add: outermostInward_def allConsume_def exampleWidgets_def exampleScreen_def)
  from keyboard_delivery_order [OF a b] a show ?thesis
    unfolding o by (auto simp: upToFirst_def allConsume_def exampleWidgets_def exampleScreen_def)
qed

text \<open>
  With every widget focused and ready to consume, the window 1 receives the key and the leaf 2
  does not; from the leaf outward the leaf would be the one receiver.
\<close>

theorem keyboard_leaf_first_counterexample:
  "keyCallbackEvent allConsume 65 0 1 0 exampleScreen =
     Inr (True, exampleScreen\<lparr>mLastInteraction := 7, delivered := [KeyboardEvent 1 65 0 1 0]\<rparr>) \<and>
   map (\<lambda>w. KeyboardEvent w 65 0 1 0)
     (upToFirst (\<lambda>w. reply allConsume (KeyboardEvent w 65 0 1 0) = Returns True)
        (leafOutward allConsume (mFocusPath exampleScreen))) = [KeyboardEvent 2 65 0 1 0]"
  by (simp add: keyCallbackEvent_def keyboardEvent_def keyboardDispatch_def caught_def deliver_def
      upToFirst_def leafOutward_def allConsume_def exampleWidgets_def exampleScreen_def)

section \<open>Modal windows\<close>

lemma rev_nth_1:
  assumes "1 < length xs"
  shows "rev xs ! 1 = xs ! (length xs - 2)"
proof -
  have "rev xs ! 1 = xs ! (length xs - Suc 1)"
    using assms by (intro rev_nth) simp
  then show ?thesis by (simp add: numeral_2_eq_2)
qed

lemma modalBlocks_iff:
  "modalBlocks E s =
     (1 < length (mFocusPath s) \<and> isWindow E (rev (mFocusPath s) ! 1) \<and>
      modal E (rev (mFocusPath s) ! 1) \<and> \<not> contains E (rev (mFocusPath s) ! 1) (mMousePos s))"
proof (cases "1 < length (mFocusPath s)")
  case True
  then have "rev (mFocusPath s) ! 1 = mFocusPath s ! (length (mFocusPath s) - 2)"
    by (rule rev_nth_1)
  with True show ?thesis unfolding modalBlocks_def Let_def by simp
next
  case False
  then show ?thesis unfolding modalBlocks_def Let_def by simp
qed

lemma modalBlocks_frame:
  "modalBlocks E (s\<lparr>mModifiers := m\<rparr>) = modalBlocks E s"
  "modalBlocks E (s\<lparr>mLastInteraction := t\<rparr>) = modalBlocks E s"
  by (simp_all add: modalBlocks_def)

text \<open>
  Claim C3. When the second entry from the top of the focus path is a modal window \<open>M\<close> and
  the mouse position is outside \<open>M\<close>, a mouse-button callback and a scroll callback return
  false, make no call to any widget, and leave \<^verbatim>\<open>mMouseState\<close> and \<^verbatim>\<open>mFocusPath\<close> as
  they were.
\<close>

theorem modal_window_suppresses:
  assumes "1 < length (mFocusPath s)"
    and "rev (mFocusPath s) ! 1 = M"
    and "isWindow E M" and "modal E M"
    and "\<not> contains E M (mMousePos s)"
  shows "(\<exists>s'. mouseButtonCallbackEvent E button action modifiers s = Some (Inr (False, s')) \<and>
            delivered s' = delivered s \<and> mMouseState s' = mMouseState s \<and>
            mFocusPath s' = mFocusPath s) \<and>
         (\<exists>s'. scrollCallbackEvent E x y s = Inr (False, s') \<and>
            delivered s' = delivered s \<and> mMouseState s' = mMouseState s \<and>
            mFocusPath s' = mFocusPath s)"
proof -
  have "modalBlocks E s" using assms by (simp add: modalBlocks_iff)
  then show ?thesis
    by (simp add: mouseButtonCallbackEvent_def scrollCallbackEvent_def Let_def modalBlocks_frame)
qed

theorem modal_window_suppresses_witness:
  "1 < length (mFocusPath outsideModal) \<and> rev (mFocusPath outsideModal) ! 1 = 1 \<and>
   isWindow exampleWidgets 1 \<and> modal exampleWidgets 1 \<and>
   \<not> contains exampleWidgets 1 (mMousePos outsideModal) \<and>
   (\<exists>s'. mouseButtonCallbackEvent exampleWidgets 0 NG_PRESS 0 outsideModal = Some (Inr (False, s')) \<and>
            delivered s' = delivered outsideModal \<and> mMouseState s' = mMouseState outsideModal \<and>
            mFocusPath s' = mFocusPath outsideModal) \<and>
   (\<exists>s'. scrollCallbackEvent exampleWidgets 0 1 outsideModal = Inr (False, s') \<and>
            delivered s' = delivered outsideModal \<and> mMouseState s' = mMouseState outsideModal \<and>
            mFocusPath s' = mFocusPath outsideModal)"
proof -
  have a: "1 < length (mFocusPath outsideModal)"
    by (simp add: outsideModal_def exampleScreen_def)
  have b: "rev (mFocusPath outsideModal) ! 1 = 1"
    by (simp add: outsideModal_def exampleScreen_def)
  have c: "isWindow exampleWidgets 1"
    by (simp add: isWindow_def exampleWidgets_def exampleKind_def)
  have d: "modal exampleWidgets 1"
    by (simp add: exampleWidgets_def)
  have e: "\<not> contains exampleWidgets 1 (mMousePos outsideModal)"
    by (simp add: exampleWidgets_def outsideModal_def exampleScreen_def inSquare_def)
  from modal_window_suppresses [OF a b c d e, of 0 NG_PRESS 0 0 1] a b c d e
  show ?thesis by blast
qed

text \<open>
  Claim C10. An event that the modality test suppresses still stores the modifiers (button
  callback) and the time of the event (both callbacks): these assignments precede the test.
  Nothing else of the state changes.
\<close>

theorem suppressed_event_updates:
  assumes "modalBlocks E s"
  shows "mouseButtonCallbackEvent E button action modifiers s =
           Some (Inr (False, s\<lparr>mModifiers := modifiers, mLastInteraction := ngGetTime E\<rparr>)) \<and>
         scrollCallbackEvent E x y s = Inr (False, s\<lparr>mLastInteraction := ngGetTime E\<rparr>)"
  using assms
  by (simp add: mouseButtonCallbackEvent_def scrollCallbackEvent_def Let_def modalBlocks_frame)

theorem suppressed_event_updates_witness:
  "modalBlocks exampleWidgets outsideModal \<and>
   mouseButtonCallbackEvent exampleWidgets 0 NG_PRESS 4 outsideModal =
     Some (Inr (False, outsideModal\<lparr>mModifiers := 4, mLastInteraction := 7\<rparr>)) \<and>
   scrollCallbackEvent exampleWidgets 0 1 outsideModal =
     Inr (False, outsideModal\<lparr>mLastInteraction := 7\<rparr>)"
proof -
  have a: "modalBlocks exampleWidgets outsideModal"
    by (simp add: modalBlocks_def isWindow_def exampleWidgets_def exampleKind_def
        outsideModal_def exampleScreen_def inSquare_def)
  have t: "ngGetTime exampleWidgets = 7" by (simp add: exampleWidgets_def)
  from suppressed_event_updates [OF a, of 0 NG_PRESS 4 0 1] a show ?thesis
    by (simp add: t)
qed

section \<open>Resizing\<close>

lemma resize_zero_window_rejected:
  "ngGetWindowSize E = (0, 0) \<Longrightarrow> resizeCallbackEvent E s = Inr (False, s)"
  by (simp add: resizeCallbackEvent_def)

lemma resize_stale_framebuffer_rejected:
  "mFBSize s = (0, 0) \<Longrightarrow> resizeCallbackEvent E s = Inr (False, s)"
  by (simp add: resizeCallbackEvent_def)

text \<open>
  Claim C4 asks that a reported framebuffer size of (0, 0) be rejected with the state
  untouched. The test of line 315 reads the cached \<^verbatim>\<open>mFBSize\<close>, not the size just
  queried: with a cached size of (800, 600) and a reported framebuffer size of (0, 0) the
  callback stores (0, 0) and notifies the resize handler.
\<close>

theorem resize_zero_framebuffer:
  "ngGetFramebufferSize zeroFramebuffer = (0, 0) \<and>
   resizeCallbackEvent zeroFramebuffer exampleScreen =
     Inr (False, exampleScreen\<lparr>mFBSize := (0, 0), mLastInteraction := 7,
                   delivered := [ResizeEvent 0 (800, 600)]\<rparr>) \<and>
   mFBSize exampleScreen = (800, 600)"
  by (simp add: resizeCallbackEvent_def zeroFramebuffer_def exampleWidgets_def exampleScreen_def
      deliver_def caught_def Let_def)

section \<open>Dragging\<close>

lemma deliver_returns:
  "\<forall>ev. reply E ev \<noteq> Throws \<Longrightarrow>
   deliver E ev s = Inr (reply E ev = Returns True, s\<lparr>delivered := delivered s @ [ev]\<rparr>)"
  by (cases "reply E ev") (auto simp: deliver_def)

lemma focusLostLoop_returns:
  "\<forall>ev. reply E ev \<noteq> Throws \<Longrightarrow>
   focusLostLoop E ws s =
     Inr (s\<lparr>delivered := delivered s @ map (\<lambda>x. FocusEvent x False) (filter (focused E) ws)\<rparr>)"
  by (induction ws arbitrary: s) (simp_all add: deliver_returns)

lemma updateFocus_None:
  "\<forall>ev. reply E ev \<noteq> Throws \<Longrightarrow>
   updateFocus E None s =
     Some (Inr (s\<lparr>delivered := delivered s @
                     map (\<lambda>x. FocusEvent x False) (filter (focused E) (mFocusPath s)),
                 mFocusPath := []\<rparr>))"
  by (simp add: updateFocus_def focusLostLoop_returns focusWalk.simps [of E None])

lemma updateDrag_result:
  assumes nothrow: "\<forall>ev. reply E ev \<noteq> Throws"
    and pos: "mMousePos s = p"
    and dw: "dw = (if action = NG_PRESS \<and> (button = NG_MOUSE_BUTTON_1 \<or> button = NG_MOUSE_BUTTON_2)
        then (if findWidget E p = Some (screenW E) then None else findWidget E p)
        else None)"
  shows "\<exists>s' later. updateDrag E button action s = Some (Inr s') \<and>
     mDragWidget s' = dw \<and> mDragActive s' = (dw \<noteq> None) \<and>
     mMousePos s' = p \<and> mModifiers s' = mModifiers s \<and>
     delivered s' = delivered s @ later"
proof (cases "action = NG_PRESS \<and> (button = NG_MOUSE_BUTTON_1 \<or> button = NG_MOUSE_BUTTON_2)")
  case False
  then have "updateDrag E button action s = Some (Inr (s\<lparr>mDragActive := False, mDragWidget := None\<rparr>))"
    unfolding updateDrag_def by (rule if_not_P)
  moreover have "dw = None" unfolding dw using False by (rule if_not_P)
  ultimately show ?thesis using pos by simp
next
  case True
  let ?s' = "s\<lparr>mDragWidget := dw, mDragActive := (dw \<noteq> None)\<rparr>"
  have dw': "dw = (if findWidget E p = Some (screenW E) then None else findWidget E p)"
    unfolding dw using True by (rule if_P)
  show ?thesis
  proof (cases "dw = None")
    case True
    have "updateDrag E button action s =
        (let hit = findWidget E (mMousePos s);
             dragWidget = (if hit = Some (screenW E) then None else hit);
             s' = s\<lparr>mDragWidget := dragWidget, mDragActive := (dragWidget \<noteq> None)\<rparr>
         in if \<not> mDragActive s' then updateFocus E None s' else Some (Inr s'))"
      unfolding updateDrag_def using \<open>action = NG_PRESS \<and> _\<close> by (rule if_P)
    then have "updateDrag E button action s = updateFocus E None ?s'"
      using True by (simp add: Let_def pos dw' [symmetric])
    then show ?thesis
      using pos True by (simp add: updateFocus_None [OF nothrow])
  next
    case False
    have "updateDrag E button action s =
        (let hit = findWidget E (mMousePos s);
             dragWidget = (if hit = Some (screenW E) then None else hit);
             s' = s\<lparr>mDragWidget := dragWidget, mDragActive := (dragWidget \<noteq> None)\<rparr>
         in if \<not> mDragActive s' then updateFocus E None s' else Some (Inr s'))"
      unfolding updateDrag_def using \<open>action = NG_PRESS \<and> _\<close> by (rule if_P)
    then have "updateDrag E button action s = Some (Inr ?s')"
      using False by (simp add: Let_def pos dw' [symmetric])
    then show ?thesis using pos by simp
  qed
qed

lemma hoverCursor_frame:
  "mDragWidget (hoverCursor E d s) = mDragWidget s \<and>
   mDragActive (hoverCursor E d s) = mDragActive s \<and>
   mMousePos (hoverCursor E d s) = mMousePos s \<and>
   mModifiers (hoverCursor E d s) = mModifiers s \<and>
   (\<exists>later. delivered (hoverCursor E d s) = delivered s @ later)"
  by (simp add: hoverCursor_def split: option.splits)

text \<open>
  Claim C5, as the code has it. Let a drag have captured \<open>W\<close>, let no modal window block the
  event and no handler throw. After a button event the captured widget is the widget under the
  pointer when the event is a press of button 1 or 2 (none when that widget is the Screen), and
  none after any other event: the release of any button, or the press of another button, ends
  the drag. The capture is active exactly when a widget is captured. When the event is a release
  and the widget under the pointer is not \<open>W\<close>, the first call made is a mouse-button event for
  \<open>W\<close> with \<open>pressed = false\<close>, at the position relative to the parent of \<open>W\<close>.
\<close>

theorem drag_release:
  assumes drag: "mDragActive s" "mDragWidget s = Some W"
    and par: "parent E W = Some q"
    and unblocked: "\<not> modalBlocks E s"
    and nothrow: "\<forall>ev. reply E ev \<noteq> Throws"
  shows "\<exists>handled s'.
     mouseButtonCallbackEvent E button action modifiers s = Some (Inr (handled, s')) \<and>
     mDragWidget s' =
       (if action = NG_PRESS \<and> (button = NG_MOUSE_BUTTON_1 \<or> button = NG_MOUSE_BUTTON_2)
        then (if findWidget E (mMousePos s) = Some (screenW E) then None
              else findWidget E (mMousePos s))
        else None) \<and>
     mDragActive s' = (mDragWidget s' \<noteq> None) \<and>
     (action = NG_RELEASE \<and> findWidget E (mMousePos s) \<noteq> Some W \<longrightarrow>
        (\<exists>later. delivered s' = delivered s @
           MouseButtonEvent W (vsub (mMousePos s) (absolutePosition E q)) button False modifiers
             # later))"
proof -
  let ?s1 = "s\<lparr>mModifiers := modifiers, mLastInteraction := ngGetTime E\<rparr>"
  let ?s2 = "?s1\<lparr>mMouseState :=
                        (if action = NG_PRESS then mMouseState ?s1 OR push_bit button 1
                         else mMouseState ?s1 AND NOT (push_bit button 1))\<rparr>"
  let ?drop = "findWidget E (mMousePos s)"
  let ?rel = "MouseButtonEvent W (vsub (mMousePos s) (absolutePosition E q)) button False modifiers"
  let ?synth = "action = NG_RELEASE \<and> ?drop \<noteq> Some W"
  define s3 where "s3 = (if ?synth then ?s2\<lparr>delivered := delivered s @ [?rel]\<rparr> else ?s2)"
  have nb: "\<not> modalBlocks E ?s1" using unblocked by (simp add: modalBlocks_frame)
  have rel: "(if mDragActive ?s2 \<and> action = NG_RELEASE \<and> findWidget E (mMousePos ?s2) \<noteq> mDragWidget ?s2
              then releaseToDragWidget E button ?s2 else Inr ?s2) = Inr s3"
    using drag par nothrow
    by (auto simp: s3_def releaseToDragWidget_def deliver_returns)
  have s3: "mMousePos s3 = mMousePos s" "mModifiers s3 = modifiers"
    "\<exists>later. delivered s3 = delivered s @ (if ?synth then [?rel] else []) @ later"
    by (simp_all add: s3_def)
  let ?s3h = "hoverCursor E ?drop s3"
  from hoverCursor_frame [of E ?drop s3] s3
  have h: "mMousePos ?s3h = mMousePos s" "mModifiers ?s3h = modifiers"
    "\<exists>later. delivered ?s3h = delivered s @ (if ?synth then [?rel] else []) @ later"
    by auto
  define dw where "dw =
       (if action = NG_PRESS \<and> (button = NG_MOUSE_BUTTON_1 \<or> button = NG_MOUSE_BUTTON_2)
        then (if ?drop = Some (screenW E) then None else ?drop) else None)"
  from updateDrag_result [OF nothrow h(1) dw_def]
  obtain s4 l4 where s4: "updateDrag E button action ?s3h = Some (Inr s4)"
    "mDragWidget s4 = dw" "mDragActive s4 = (dw \<noteq> None)"
    "delivered s4 = delivered ?s3h @ l4"
    by blast
  from h(3) obtain l3 where "delivered ?s3h = delivered s @ (if ?synth then [?rel] else []) @ l3"
    by blast
  with s4(4) have d4: "delivered s4 = delivered s @ (if ?synth then [?rel] else []) @ l3 @ l4"
    by simp
  let ?ev = "MouseButtonEvent (screenW E) (mMousePos s4) button (action = NG_PRESS) (mModifiers s4)"
  let ?s5 = "s4\<lparr>delivered := delivered s4 @ [?ev]\<rparr>"
  have "mouseButtonCallbackEvent E button action modifiers s =
          Some (Inr (reply E ?ev = Returns True, ?s5))"
    unfolding mouseButtonCallbackEvent_def Let_def
    using nb rel s4(1) by (simp add: deliver_returns [OF nothrow] caught_def)
  moreover have "mDragWidget ?s5 = mDragWidget s4" "mDragActive ?s5 = mDragActive s4" by simp_all
  moreover have "?synth \<longrightarrow> (\<exists>later. delivered ?s5 = delivered s @ ?rel # later)"
    using d4 by simp
  ultimately show ?thesis using s4(2,3) unfolding dw_def
    by (intro exI [of _ "reply E ?ev = Returns True"] exI [of _ ?s5]) simp
qed

theorem drag_release_witness:
  "mDragActive draggedOff \<and> mDragWidget draggedOff = Some 2 \<and>
   parent exampleWidgets 2 = Some 1 \<and> \<not> modalBlocks exampleWidgets draggedOff \<and>
   (\<forall>ev. reply exampleWidgets ev \<noteq> Throws) \<and>
   findWidget exampleWidgets (mMousePos draggedOff) = Some 1 \<and>
   (\<exists>handled s'.
      mouseButtonCallbackEvent exampleWidgets 0 NG_RELEASE 0 draggedOff = Some (Inr (handled, s')) \<and>
      mDragWidget s' = None \<and> mDragActive s' = False \<and>
      (\<exists>later. delivered s' = delivered draggedOff @
           MouseButtonEvent 2 (vsub (mMousePos draggedOff) (absolutePosition exampleWidgets 1)) 0 False 0
             # later))"
proof -
  have a: "mDragActive draggedOff"
    by (simp add: draggedOff_def draggingButton_def)
  have b: "mDragWidget draggedOff = Some 2"
    by (simp add: draggedOff_def draggingButton_def)
  have c: "parent exampleWidgets 2 = Some 1"
    by (simp add: exampleWidgets_def)
  have d: "\<not> modalBlocks exampleWidgets draggedOff"
    by (simp add: modalBlocks_def draggedOff_def draggingButton_def exampleScreen_def
        exampleWidgets_def inSquare_def)
  have e: "\<forall>ev. reply exampleWidgets ev \<noteq> Throws"
    by (simp add: exampleWidgets_def)
  have f: "findWidget exampleWidgets (mMousePos draggedOff) = Some 1"
    by (simp add: draggedOff_def draggingButton_def exampleWidgets_def inSquare_def)
  have g: "NG_RELEASE \<noteq> NG_PRESS"
    by (simp add: NG_RELEASE_def NG_PRESS_def)
  from drag_release [OF a b c d e, of 0 NG_RELEASE 0] f g
  have "\<exists>handled s'.
      mouseButtonCallbackEvent exampleWidgets 0 NG_RELEASE 0 draggedOff = Some (Inr (handled, s')) \<and>
      mDragWidget s' = None \<and> mDragActive s' = False \<and>
      (\<exists>later. delivered s' = delivered draggedOff @
           MouseButtonEvent 2 (vsub (mMousePos draggedOff) (absolutePosition exampleWidgets 1)) 0 False 0
             # later)"
    by auto
  with a b c d e f show ?thesis by blast
qed

text \<open>
  The button 2 is captured and under the pointer; the middle mouse button is pressed. The
  event is no release and the widget under the pointer is the captured one, yet the drag ends.
\<close>

theorem drag_middle_press_counterexample:
  "mDragActive draggingButton \<and> mDragWidget draggingButton = Some 2 \<and>
   findWidget exampleWidgets (mMousePos draggingButton) = Some 2 \<and>
   NG_PRESS \<noteq> NG_RELEASE \<and>
   mouseButtonCallbackEvent exampleWidgets 2 NG_PRESS 0 draggingButton =
     Some (Inr (False, draggingButton\<lparr>mLastInteraction := 7, mMouseState := 5, mCursor := Hand,
        mDragActive := False, mDragWidget := None,
        delivered := [SetCursor Hand, MouseButtonEvent 0 (25, 25) 2 True 0]\<rparr>))"
  by (simp add: mouseButtonCallbackEvent_def modalBlocks_def updateDrag_def hoverCursor_def
      deliver_def caught_def Let_def isWindow_def inSquare_def
      NG_PRESS_def NG_RELEASE_def NG_MOUSE_BUTTON_1_def NG_MOUSE_BUTTON_2_def
      draggingButton_def exampleScreen_def exampleWidgets_def exampleKind_def)

section \<open>Disposal and the drag state\<close>

text \<open>The button callback leaves the drag flag set only together with a drag widget.\<close>

lemma deliver_drag:
  "deliver E ev s = Inr (b, s') \<Longrightarrow>
   mDragActive s' = mDragActive s \<and> mDragWidget s' = mDragWidget s"
  by (auto simp: deliver_def split: reply.splits)

lemma focusLostLoop_drag:
  "focusLostLoop E ws s = Inr s' \<Longrightarrow>
   mDragActive s' = mDragActive s \<and> mDragWidget s' = mDragWidget s"
proof (induction ws arbitrary: s)
  case Nil
  then show ?case by simp
next
  case (Cons w ws)
  show ?case
  proof (cases "focused E w")
    case False
    with Cons show ?thesis by simp
  next
    case True
    with Cons.prems obtain b s1 where d: "deliver E (FocusEvent w False) s = Inr (b, s1)"
      and r: "focusLostLoop E ws s1 = Inr s'"
      by (auto split: sum.splits)
    from Cons.IH [OF r] deliver_drag [OF d] show ?thesis by simp
  qed
qed

lemma updateFocus_None_drag:
  assumes "updateFocus E None s = Some (Inr s')"
  shows "mDragActive s' = mDragActive s \<and> mDragWidget s' = mDragWidget s"
proof -
  from assms obtain s1 where l: "focusLostLoop E (mFocusPath s) s = Inr s1"
    and s': "s' = s1\<lparr>mFocusPath := []\<rparr>"
    by (auto simp: updateFocus_def focusWalk.simps [of E None] split: sum.splits)
  from focusLostLoop_drag [OF l] s' show ?thesis by simp
qed

lemma updateDrag_invariant:
  assumes "updateDrag E button action s = Some (Inr s')"
  shows "mDragActive s' = (mDragWidget s' \<noteq> None)"
proof (cases "action = NG_PRESS \<and> (button = NG_MOUSE_BUTTON_1 \<or> button = NG_MOUSE_BUTTON_2)")
  case False
  then have "updateDrag E button action s = Some (Inr (s\<lparr>mDragActive := False, mDragWidget := None\<rparr>))"
    unfolding updateDrag_def by (rule if_not_P)
  with assms show ?thesis by auto
next
  case True
  define dw where "dw = (if findWidget E (mMousePos s) = Some (screenW E) then None
                         else findWidget E (mMousePos s))"
  let ?s1 = "s\<lparr>mDragWidget := dw, mDragActive := (dw \<noteq> None)\<rparr>"
  have "updateDrag E button action s =
        (let hit = findWidget E (mMousePos s);
             dragWidget = (if hit = Some (screenW E) then None else hit);
             s' = s\<lparr>mDragWidget := dragWidget, mDragActive := (dragWidget \<noteq> None)\<rparr>
         in if \<not> mDragActive s' then updateFocus E None s' else Some (Inr s'))"
    unfolding updateDrag_def using True by (rule if_P)
  then have u: "updateDrag E button action s =
        (if dw = None then updateFocus E None ?s1 else Some (Inr ?s1))"
    by (simp add: Let_def dw_def [symmetric])
  show ?thesis
  proof (cases "dw = None")
    case True
    with u assms have "updateFocus E None ?s1 = Some (Inr s')" by simp
    from updateFocus_None_drag [OF this] True show ?thesis by simp
  next
    case False
    with u assms have "s' = ?s1" by simp
    with False show ?thesis by simp
  qed
qed

lemma mouseButton_keeps_drag_invariant:
  assumes ret: "mouseButtonCallbackEvent E button action modifiers s = Some (Inr (handled, s'))"
    and inv: "mDragActive s \<longrightarrow> mDragWidget s \<noteq> None"
  shows "mDragActive s' \<longrightarrow> mDragWidget s' \<noteq> None"
proof (cases "modalBlocks E (s\<lparr>mModifiers := modifiers, mLastInteraction := ngGetTime E\<rparr>)")
  case True
  with ret have "s' = s\<lparr>mModifiers := modifiers, mLastInteraction := ngGetTime E\<rparr>"
    by (simp add: mouseButtonCallbackEvent_def Let_def)
  with inv show ?thesis by simp
next
  case False
  with ret obtain s3 s4 ev where u: "updateDrag E button action s3 = Some (Inr s4)"
    and d: "deliver E ev s4 = Inr (handled, s')"
    by (auto simp: mouseButtonCallbackEvent_def Let_def caught_def
        split: sum.splits option.splits error.splits if_splits)
  from updateDrag_invariant [OF u] deliver_drag [OF d] show ?thesis by simp
qed

text \<open>
  Claim C8 asks that \<^verbatim>\<open>mDragWidget\<close> refer to a widget whenever \<^verbatim>\<open>mDragActive\<close> holds.
  \<^verbatim>\<open>disposeWindow\<close> of the window that is being dragged clears \<^verbatim>\<open>mDragWidget\<close> and leaves
  \<^verbatim>\<open>mDragActive\<close> set; the next cursor callback calls through the null pointer.
\<close>

theorem dispose_keeps_drag_active:
  "mDragActive draggingWindow \<and> mDragWidget draggingWindow = Some 1 \<and>
   mDragActive (disposeWindow 1 draggingWindow) \<and>
   mDragWidget (disposeWindow 1 draggingWindow) = None \<and>
   cursorPosCallbackEvent exampleWidgets 31 32 (disposeWindow 1 draggingWindow) = Inl NullDereference"
  by (simp add: disposeWindow_def removeChild_def draggingWindow_def exampleScreen_def
      cursorPosCallbackEvent_def Let_def)

text \<open>The same in every state in which the window itself is dragged.\<close>

lemma disposeWindow_dragged_window:
  "mDragActive s \<Longrightarrow> mDragWidget s = Some window \<Longrightarrow>
   mDragActive (disposeWindow window s) \<and> mDragWidget (disposeWindow window s) = None"
  by (simp add: disposeWindow_def removeChild_def Let_def)

text \<open>What \<^verbatim>\<open>disposeWindow\<close> does clear: the references to the window itself.\<close>

lemma disposeWindow_window_gone:
  "window \<notin> set (mChildren (disposeWindow window s)) \<and>
   window \<notin> set (mFocusPath (disposeWindow window s)) \<and>
   mDragWidget (disposeWindow window s) \<noteq> Some window"
  by (simp add: disposeWindow_def removeChild_def Let_def)

text \<open>
  Claim C9 asks that no reference to the window or to a widget of its subtree remain after
  \<^verbatim>\<open>disposeWindow\<close>. The test of line 354 compares \<^verbatim>\<open>mDragWidget\<close> with the window
  only: the button 2, a child of window 1, stays the drag widget when window 1 is disposed.
\<close>

theorem dispose_keeps_subtree_drag:
  "mDragWidget draggingButton = Some 2 \<and>
   mDragWidget (disposeWindow 1 draggingButton) = Some 2 \<and>
   mDragActive (disposeWindow 1 draggingButton) \<and>
   parent exampleWidgets 2 = Some 1 \<and>
   1 \<notin> set (mChildren (disposeWindow 1 draggingButton))"
  by (simp add: disposeWindow_def removeChild_def draggingButton_def exampleScreen_def
      exampleWidgets_def Let_def)

end
